theory Spec2Isabelle
  imports Main "HOL-Library.Word"
begin

unbundle bit_operations_syntax

section \<open>Byte-addressed memory\<close>

text \<open>
  The allocator of \<^verbatim>\<open>lib/src/rc.c\<close> works on raw memory: block headers are written at
  arbitrary byte addresses (a split puts a header \<open>size\<close> bytes after the previous
  payload, so headers are not even aligned), closures are read as 64-bit words and
  \<^verbatim>\<open>rccopy\<close> moves single bytes. Memory is therefore a function from 64-bit addresses to
  bytes; a 64-bit or 32-bit access reads or writes consecutive bytes, least significant
  byte first (the library is built for x86-64).
\<close>

type_synonym addr = "64 word"
type_synonym memory = "addr \<Rightarrow> 8 word"

definition store64 :: "memory \<Rightarrow> addr \<Rightarrow> 64 word \<Rightarrow> memory" where
  "store64 m a v = (\<lambda>x. if x - a < 8 then ucast (drop_bit (8 * unat (x - a)) v) else m x)"

definition load64 :: "memory \<Rightarrow> addr \<Rightarrow> 64 word" where
  "load64 m a =
     ucast (m a) OR push_bit 8 (ucast (m (a + 1))) OR push_bit 16 (ucast (m (a + 2)))
     OR push_bit 24 (ucast (m (a + 3))) OR push_bit 32 (ucast (m (a + 4)))
     OR push_bit 40 (ucast (m (a + 5))) OR push_bit 48 (ucast (m (a + 6)))
     OR push_bit 56 (ucast (m (a + 7)))"

definition load32 :: "memory \<Rightarrow> addr \<Rightarrow> 32 word" where
  "load32 m a =
     ucast (m a) OR push_bit 8 (ucast (m (a + 1))) OR push_bit 16 (ucast (m (a + 2)))
     OR push_bit 24 (ucast (m (a + 3)))"

section \<open>The block header\<close>

text \<open>
  \<^verbatim>\<open>struct s_rcalloc_header { void* next; size_t size; size_t rc; }\<close>: three 8-byte fields,
  24 bytes in all. A payload pointer is the address just after the header, so the header
  of a payload pointer \<open>ptr\<close> is at \<open>ptr - 24\<close>.
\<close>

definition PAGE_SIZE :: "64 word" where
  "PAGE_SIZE = 4096"

definition HEADER :: "64 word" where
  "HEADER = 24"

definition hdr_next :: "memory \<Rightarrow> addr \<Rightarrow> addr" where
  "hdr_next m p = load64 m p"

definition hdr_size :: "memory \<Rightarrow> addr \<Rightarrow> 64 word" where
  "hdr_size m p = load64 m (p + 8)"

definition hdr_rc :: "memory \<Rightarrow> addr \<Rightarrow> 64 word" where
  "hdr_rc m p = load64 m (p + 16)"

definition set_next :: "addr \<Rightarrow> addr \<Rightarrow> memory \<Rightarrow> memory" where
  "set_next p v m = store64 m p v"

definition set_size :: "addr \<Rightarrow> 64 word \<Rightarrow> memory \<Rightarrow> memory" where
  "set_size p v m = store64 m (p + 8) v"

definition set_rc :: "addr \<Rightarrow> 64 word \<Rightarrow> memory \<Rightarrow> memory" where
  "set_rc p v m = store64 m (p + 16) v"

section \<open>The allocator state and the operating system\<close>

text \<open>
  The state is the global \<^verbatim>\<open>start\<close>, the memory, and the operating system's side of
  \<^verbatim>\<open>mmap\<close>. The library calls
  \<^verbatim>\<open>mmap(NULL, len, PROT_READ | PROT_WRITE, MAP_PRIVATE | MAP_ANONYMOUS, -1, 0)\<close>: the
  kernel picks the address or refuses. The kernel's answers to the coming calls are the
  list \<open>os\<close>, one address per call, \<open>MAP_FAILED\<close> (that is \<open>(void*) -1\<close>) for a refusal;
  an exhausted list refuses. A length of zero is refused (EINVAL). A mapping covers whole
  pages, and fresh anonymous pages read as zero.
\<close>

record rc_state =
  start :: addr
  mem :: memory
  os :: "addr list"

definition MAP_FAILED :: addr where
  "MAP_FAILED = - 1"

definition pages :: "64 word \<Rightarrow> nat" where
  "pages len = ((unat len + 4095) div 4096) * 4096"

definition zero_fill :: "addr \<Rightarrow> nat \<Rightarrow> memory \<Rightarrow> memory" where
  "zero_fill r n m = (\<lambda>x. if unat (x - r) < n then 0 else m x)"

definition mmap_anon :: "64 word \<Rightarrow> rc_state \<Rightarrow> addr \<times> rc_state" where
  "mmap_anon len st =
     (case os st of
        [] \<Rightarrow> (MAP_FAILED, st)
      | r # rs \<Rightarrow>
          if len = 0 \<or> r = MAP_FAILED then (MAP_FAILED, st\<lparr>os := rs\<rparr>)
          else (r, st\<lparr>os := rs, mem := zero_fill r (pages len) (mem st)\<rparr>))"

section \<open>\<^verbatim>\<open>rcalloc\<close>\<close>

text \<open>
  The block of code that shrinks a block \<open>p\<close> to \<open>size\<close> bytes and puts a new free block
  \<open>q\<close> behind it (lines 45 to 50, and again lines 71 to 76), statement by statement.
\<close>

definition shrink :: "addr \<Rightarrow> 64 word \<Rightarrow> memory \<Rightarrow> memory" where
  "shrink p sz m =
     (let q = p + HEADER + sz;
          m1 = set_next q (hdr_next m p) m;
          m2 = set_size q (hdr_size m1 p - sz - HEADER) m1;
          m3 = set_rc q 0 m2;
          m4 = set_next p q m3;
          m5 = set_size p sz m4
      in m5)"

text \<open>
  The loop of lines 38 to 61. It either returns from inside the loop with the payload
  pointer of the block it took (\<open>Found\<close>), or leaves the loop at \<open>p = NULL\<close> with the last
  block it visited (\<open>Exhausted\<close>). On a chain that never reaches \<open>NULL\<close> the loop does not
  end: the result is \<open>None\<close>.
\<close>

datatype scan_result = Found addr memory | Exhausted addr

partial_function (option) scan :: "64 word \<Rightarrow> addr \<Rightarrow> addr \<Rightarrow> memory \<Rightarrow> scan_result option" where
  "scan sz p last_p m =
     (if p = 0 then Some (Exhausted last_p)
      else if hdr_rc m p = 0 \<and> sz \<le> hdr_size m p then
        (let m1 = (if sz * 2 + HEADER \<le> hdr_size m p then shrink p sz m else m);
             m2 = set_rc p 1 m1
         in Some (Found (p + HEADER) m2))
      else scan sz (hdr_next m p) p m)"

text \<open>Lines 23 to 35: the first call maps one page and writes the header of its only block.\<close>

definition heap_init :: "rc_state \<Rightarrow> bool \<times> rc_state" where
  "heap_init st =
     (if start st = 0 then
        (let (r, st1) = mmap_anon PAGE_SIZE st;
             st2 = st1\<lparr>start := r\<rparr>
         in if r = MAP_FAILED then (False, st2)
            else (True, st2\<lparr>mem := set_rc r 0 (set_size r (PAGE_SIZE - HEADER) (set_next r 0 (mem st2)))\<rparr>))
      else (True, st))"

text \<open>Lines 63 to 79: no block fits, a new segment is mapped and linked behind \<open>last\<close>.\<close>

definition grow :: "64 word \<Rightarrow> addr \<Rightarrow> rc_state \<Rightarrow> addr \<times> rc_state" where
  "grow sz last_p st =
     (let (p, st1) = mmap_anon (if PAGE_SIZE - HEADER < sz then sz + HEADER else PAGE_SIZE) st
      in if p = MAP_FAILED then (0, st1)
         else
           (let m1 = set_next last_p p (mem st1);
                m2 = (if sz * 2 + HEADER \<le> hdr_size m1 p then shrink p sz m1 else m1)
            in (p + HEADER, st1\<lparr>mem := m2\<rparr>)))"

definition rcalloc :: "64 word \<Rightarrow> rc_state \<Rightarrow> (addr \<times> rc_state) option" where
  "rcalloc sz st =
     (if sz = 0 then Some (0, st)
      else
        (let (ok, st1) = heap_init st
         in if \<not> ok then Some (0, st1)
            else
              (case scan sz (start st1) (start st1) (mem st1) of
                 None \<Rightarrow> None
               | Some (Found ptr m) \<Rightarrow> Some (ptr, st1\<lparr>mem := m\<rparr>)
               | Some (Exhausted last_p) \<Rightarrow> Some (grow sz last_p st1))))"

section \<open>\<^verbatim>\<open>rccopy\<close>\<close>

text \<open>The two byte loops of lines 90 to 96, with the \<^verbatim>\<open>size_t\<close> counter \<open>i\<close>.\<close>

function copy_loop :: "64 word \<Rightarrow> 64 word \<Rightarrow> addr \<Rightarrow> addr \<Rightarrow> memory \<Rightarrow> memory" where
  "copy_loop i n dst src m =
     (if i < n then copy_loop (i + 1) n dst src (m(dst + i := m (src + i))) else m)"
  by pat_completeness auto
termination
proof (relation "measure (\<lambda>(i, n, dst, src, m). unat n - unat i)")
  show "wf (measure (\<lambda>(i :: 64 word, n :: 64 word, dst :: addr, src :: addr, m :: memory). unat n - unat i))"
    by simp
next
  fix i n :: "64 word" and dst src :: addr and m :: memory
  assume "i < n"
  then have "unat (i + 1) = unat i + 1" and "unat i < unat n"
    by (unat_arith, unat_arith)
  then show "((i + 1, n, dst, src, m(dst + i := m (src + i))), (i, n, dst, src, m))
               \<in> measure (\<lambda>(i, n, dst, src, m). unat n - unat i)"
    by simp
qed

declare copy_loop.simps [simp del]

definition rccopy :: "addr \<Rightarrow> 64 word \<Rightarrow> 64 word \<Rightarrow> rc_state \<Rightarrow> (addr \<times> rc_state) option" where
  "rccopy ptr len sz st =
     (if ptr = 0 then Some (ptr, st)
      else
        (case rcalloc sz st of
           None \<Rightarrow> None
         | Some (alloced, st1) \<Rightarrow>
             if alloced = 0 then Some (alloced, st1)
             else
               (let m1 = copy_loop 0 len alloced ptr (mem st1);
                    m2 = copy_loop len sz alloced ptr m1
                in Some (alloced, st1\<lparr>mem := m2\<rparr>))))"

section \<open>The reference count\<close>

definition rcinc :: "addr \<Rightarrow> rc_state \<Rightarrow> rc_state" where
  "rcinc ptr st =
     (let header = ptr - HEADER
      in st\<lparr>mem := set_rc header (hdr_rc (mem st) header + 1) (mem st)\<rparr>)"

definition has_one_reference :: "addr \<Rightarrow> rc_state \<Rightarrow> bool" where
  "has_one_reference ptr st =
     (let header = ptr - HEADER in hdr_rc (mem st) header = 1)"

definition rcfree :: "addr \<Rightarrow> rc_state \<Rightarrow> rc_state" where
  "rcfree ptr st =
     (let header = ptr - HEADER
      in if hdr_rc (mem st) header \<noteq> 0
         then st\<lparr>mem := set_rc header (hdr_rc (mem st) header - 1) (mem st)\<rparr>
         else st)"

section \<open>\<^verbatim>\<open>rcfuncfree\<close>\<close>

text \<open>
  A closure is read as 64-bit words: word 0 is the address of the function, whose first
  32-bit word is its number of arguments, and words 1, 2, ... are the captured
  arguments. The function calls itself from inside its \<^verbatim>\<open>for\<close> loop, and nothing bounds
  the nesting (a closure that captures itself never finishes), so the function and its
  loop are one partial function with two entry points: \<open>Call ptr\<close> is the call
  \<^verbatim>\<open>rcfuncfree(ptr)\<close>, and \<open>Loop closure i n\<close> is the loop of lines 137 to 141 standing
  at counter \<open>i\<close> with bound \<open>n = argc + 1\<close>, both \<^verbatim>\<open>unsigned int\<close>.

  The store through the null pointer in line 146 is how the function stops the process:
  page zero is never mapped, the store traps. The outcome \<open>Fault\<close> is that trap. The
  read of \<^verbatim>\<open>*func\<close> in line 136 traps in the same way when word 0 of the closure is
  \<^verbatim>\<open>NULL\<close>.
\<close>

datatype outcome = Done rc_state | Fault

datatype entry = Call addr | Loop addr "32 word" "32 word"

definition closure_word :: "memory \<Rightarrow> addr \<Rightarrow> 32 word \<Rightarrow> 64 word" where
  "closure_word m closure i = load64 m (closure + 8 * ucast i)"

partial_function (option) rcfuncfree_at :: "entry \<Rightarrow> rc_state \<Rightarrow> outcome option" where
  "rcfuncfree_at e st =
     (case e of
        Call ptr \<Rightarrow>
          if ptr AND 1 \<noteq> 0 then Some (Done st)
          else
            (let header = ptr - HEADER
             in if hdr_rc (mem st) header \<noteq> 0 then
                  Option.bind
                    (if hdr_rc (mem st) header = 1 then
                       (let func = closure_word (mem st) ptr 0
                        in if func = 0 then Some Fault
                           else
                             (let argc = load32 (mem st) func
                              in rcfuncfree_at (Loop ptr 1 (argc + 1)) st))
                     else Some (Done st))
                    (\<lambda>r. case r of
                            Fault \<Rightarrow> Some Fault
                          | Done st1 \<Rightarrow>
                              Some (Done (st1\<lparr>mem := set_rc header (hdr_rc (mem st1) header - 1) (mem st1)\<rparr>)))
                else Some Fault)
      | Loop closure i n \<Rightarrow>
          if i < n then
            if closure_word (mem st) closure i = 0 then Some (Done st)
            else
              Option.bind (rcfuncfree_at (Call (closure_word (mem st) closure i)) st)
                (\<lambda>r. case r of
                        Fault \<Rightarrow> Some Fault
                      | Done st1 \<Rightarrow> rcfuncfree_at (Loop closure (i + 1) n) st1)
          else Some (Done st))"

definition rcfuncfree :: "addr \<Rightarrow> rc_state \<Rightarrow> outcome option" where
  "rcfuncfree ptr st = rcfuncfree_at (Call ptr) st"

declare scan.simps [code]
declare rcfuncfree_at.simps [code]

section \<open>Concrete heaps\<close>

text \<open>
  The allocator before its first call: \<^verbatim>\<open>start\<close> is \<^verbatim>\<open>NULL\<close>, and the kernel will answer the
  first two mappings with the addresses \<open>0x10000\<close> and \<open>0x20000\<close>.
\<close>

definition fresh_heap :: rc_state where
  "fresh_heap = \<lparr>start = 0, mem = (\<lambda>_. 0), os = [0x10000, 0x20000]\<rparr>"

section \<open>Predicates on heaps\<close>

text \<open>
  \<open>path m a xs b\<close>: following the \<^verbatim>\<open>next\<close> fields from \<open>a\<close> visits the blocks \<open>xs\<close> in
  this order and then stands at \<open>b\<close>. \<open>fits m sz p\<close> is the test of line 42: the block is
  free and large enough.
\<close>

primrec path :: "memory \<Rightarrow> addr \<Rightarrow> addr list \<Rightarrow> addr \<Rightarrow> bool" where
  "path m a [] b \<longleftrightarrow> a = b"
| "path m a (x # xs) b \<longleftrightarrow> a = x \<and> x \<noteq> 0 \<and> path m (hdr_next m x) xs b"

definition fits :: "memory \<Rightarrow> 64 word \<Rightarrow> addr \<Rightarrow> bool" where
  "fits m sz p \<longleftrightarrow> hdr_rc m p = 0 \<and> sz \<le> hdr_size m p"

text \<open>
  \<open>in_hdr p x\<close>: the byte \<open>x\<close> is one of the 24 bytes of the header at \<open>p\<close>. \<open>far p q\<close>:
  the headers at \<open>p\<close> and \<open>q\<close> share no byte (each starts at least 24 bytes after the
  other, going round the address space).
\<close>

definition in_hdr :: "addr \<Rightarrow> addr \<Rightarrow> bool" where
  "in_hdr p x \<longleftrightarrow> x - p < 24"

definition far :: "addr \<Rightarrow> addr \<Rightarrow> bool" where
  "far p q \<longleftrightarrow> 24 \<le> q - p \<and> q - p \<le> - 24"

text \<open>The heap after \<^verbatim>\<open>rcalloc(5)\<close> on the fresh allocator: a live block of 5 bytes at
  \<open>0x10000\<close>, and the free rest of the page, 4043 bytes, at \<open>0x1001D\<close>.\<close>

definition heap5 :: rc_state where
  "heap5 = (case rcalloc 5 fresh_heap of Some (p, st) \<Rightarrow> st | None \<Rightarrow> fresh_heap)"

text \<open>
  The heap after \<^verbatim>\<open>rcalloc(2)\<close> on the fresh allocator, with the byte 1 stored in the first
  byte of the block: a live block of 2 bytes with payload at \<open>0x10018\<close>, and the free rest
  of the page, whose header is at \<open>0x1001A\<close> and whose payload starts at \<open>0x10032\<close>, 26
  bytes behind the payload of the live block.
\<close>

definition dup_heap :: rc_state where
  "dup_heap = (case rcalloc 2 fresh_heap of
                 Some (p, st) \<Rightarrow> st\<lparr>mem := (mem st)(0x10018 := 1)\<rparr>
               | None \<Rightarrow> fresh_heap)"

text \<open>The fresh allocator with four bytes of caller data at \<open>0x30000\<close>.\<close>

definition src_heap :: rc_state where
  "src_heap = fresh_heap\<lparr>mem := (\<lambda>_. 0)(0x30000 := 1, 0x30001 := 2, 0x30002 := 3, 0x30003 := 4)\<rparr>"

text \<open>
  Releasing a list of values one after the other with \<^verbatim>\<open>rcfuncfree\<close>, stopping at the
  first call that does not return.
\<close>

primrec release_seq :: "64 word list \<Rightarrow> rc_state \<Rightarrow> outcome option" where
  "release_seq [] st = Some (Done st)"
| "release_seq (a # as) st =
     Option.bind (rcfuncfree a st)
       (\<lambda>r. case r of Fault \<Rightarrow> Some Fault | Done st1 \<Rightarrow> release_seq as st1)"

text \<open>
  What a closure at \<open>ptr\<close> with \<open>n\<close> captured arguments reads of itself while it is
  released: its reference count and its words 1 to \<open>n + 1\<close>.
\<close>

definition own_words :: "addr \<Rightarrow> nat \<Rightarrow> memory \<Rightarrow> 64 word \<times> 64 word list" where
  "own_words ptr n m = (hdr_rc m (ptr - HEADER), map (\<lambda>i. closure_word m ptr (of_nat i)) [1..<n + 2])"

text \<open>
  A closure at \<open>0x10018\<close> with reference count 1 whose function, at \<open>0x40000\<close>, takes 3
  arguments; it has captured \<open>0x30018\<close> (a block with reference count 2) and \<open>0x20018\<close>
  (a closure with reference count 1 and a function without arguments, at \<open>0x40010\<close>), and
  its third slot is 0.
\<close>

definition closure_heap :: rc_state where
  "closure_heap = \<lparr>start = 0x10000,
     mem = (\<lambda>_. 0)(0x10010 := 1, 0x1001A := 0x04,
                    0x10020 := 0x18, 0x10022 := 0x03,
                    0x10028 := 0x18, 0x1002A := 0x02,
                    0x40000 := 3,
                    0x30010 := 2,
                    0x20010 := 1, 0x20018 := 0x10, 0x2001A := 0x04),
     os = []\<rparr>"

text \<open>
  A block occupies the bytes from its header up to \<open>block_end\<close>. A heap is well formed
  when its blocks lie in the lower half of the address space and no two of them share a
  byte. \<open>take_block\<close> is what lines 43 to 54 do to the memory when the scan takes the
  block \<open>p\<close>.
\<close>

definition block_end :: "memory \<Rightarrow> addr \<Rightarrow> nat" where
  "block_end m b = unat b + 24 + unat (hdr_size m b)"

definition wf_heap :: "memory \<Rightarrow> addr list \<Rightarrow> bool" where
  "wf_heap m bs \<longleftrightarrow>
     (\<forall>b\<in>set bs. block_end m b \<le> 9223372036854775808)
     \<and> (\<forall>b\<in>set bs. \<forall>c\<in>set bs. b \<noteq> c \<longrightarrow> block_end m b \<le> unat c \<or> block_end m c \<le> unat b)"

definition take_block :: "addr \<Rightarrow> 64 word \<Rightarrow> memory \<Rightarrow> memory" where
  "take_block p sz m =
     set_rc p 1 (if sz * 2 + HEADER \<le> hdr_size m p then shrink p sz m else m)"







section \<open>Loads and stores\<close>

lemma bit_byte_of:
  "bit (push_bit k (ucast (ucast (drop_bit k v) :: 8 word)) :: 64 word) n
     \<longleftrightarrow> k \<le> n \<and> n < k + 8 \<and> n < 64 \<and> bit (v :: 64 word) n"
  by (auto simp add: bit_simps)

lemma bit_byte_of0:
  "bit (ucast (ucast v :: 8 word) :: 64 word) n \<longleftrightarrow> n < 8 \<and> bit (v :: 64 word) n"
  by (auto simp add: bit_simps)

lemma word64_of_bytes:
  "ucast (ucast v :: 8 word) OR push_bit 8 (ucast (ucast (drop_bit 8 v) :: 8 word))
     OR push_bit 16 (ucast (ucast (drop_bit 16 v) :: 8 word))
     OR push_bit 24 (ucast (ucast (drop_bit 24 v) :: 8 word))
     OR push_bit 32 (ucast (ucast (drop_bit 32 v) :: 8 word))
     OR push_bit 40 (ucast (ucast (drop_bit 40 v) :: 8 word))
     OR push_bit 48 (ucast (ucast (drop_bit 48 v) :: 8 word))
     OR push_bit 56 (ucast (ucast (drop_bit 56 v) :: 8 word)) = (v :: 64 word)"
proof (rule bit_word_eqI, simp only: bit_or_iff bit_byte_of bit_byte_of0)
  fix n :: nat
  assume "n < LENGTH(64)"
  then have n: "n < 64" by simp
  show "(n < 8 \<and> bit v n \<or> 8 \<le> n \<and> n < 8 + 8 \<and> n < 64 \<and> bit v n \<or>
         16 \<le> n \<and> n < 16 + 8 \<and> n < 64 \<and> bit v n \<or>
         24 \<le> n \<and> n < 24 + 8 \<and> n < 64 \<and> bit v n \<or>
         32 \<le> n \<and> n < 32 + 8 \<and> n < 64 \<and> bit v n \<or>
         40 \<le> n \<and> n < 40 + 8 \<and> n < 64 \<and> bit v n \<or>
         48 \<le> n \<and> n < 48 + 8 \<and> n < 64 \<and> bit v n \<or>
         56 \<le> n \<and> n < 56 + 8 \<and> n < 64 \<and> bit v n) = bit v n"
    using n by (cases "bit v n") (simp_all, linarith)
qed

lemma load64_store64_same: "load64 (store64 m a v) a = v"
  unfolding load64_def store64_def
  by (simp add: word64_of_bytes)

lemma store64_outside: "\<not> x - a < 8 \<Longrightarrow> store64 m a v x = m x"
  by (simp add: store64_def)

lemma load64_cong:
  assumes "\<And>x. x - a < 8 \<Longrightarrow> m x = m' x"
  shows "load64 m a = load64 m' a"
proof -
  have "m a = m' a" "m (a + 1) = m' (a + 1)" "m (a + 2) = m' (a + 2)" "m (a + 3) = m' (a + 3)"
    "m (a + 4) = m' (a + 4)" "m (a + 5) = m' (a + 5)" "m (a + 6) = m' (a + 6)" "m (a + 7) = m' (a + 7)"
    by (simp_all add: assms)
  then show ?thesis by (simp add: load64_def)
qed

text \<open>
  Two 8-byte fields are apart when each starts at least 8 bytes after the other, going
  round the address space.
\<close>

lemma apart_byte:
  fixes a b x :: addr
  assumes "8 \<le> a - b" "8 \<le> b - a" "x - a < 8"
  shows "\<not> x - b < 8"
  using assms by unat_arith

lemma load64_store64_apart:
  assumes "8 \<le> a - b" "8 \<le> b - a"
  shows "load64 (store64 m b v) a = load64 m a"
  by (rule load64_cong) (use assms apart_byte in \<open>simp add: store64_outside\<close>)

section \<open>Header fields\<close>

lemma off_in_24:
  fixes y :: addr
  shows "y < 8 \<Longrightarrow> y < 24" "y - 8 < 8 \<Longrightarrow> y < 24" "y - 16 < 8 \<Longrightarrow> y < 24"
  unfolding word_le_def word_less_alt uint_sub_if'
  by (simp_all split: if_splits)

lemma field_in_hdr:
  "x - p < 8 \<Longrightarrow> in_hdr p x" "x - (p + 8) < 8 \<Longrightarrow> in_hdr p x" "x - (p + 16) < 8 \<Longrightarrow> in_hdr p x"
  using off_in_24 [of "x - p"] by (simp_all add: in_hdr_def diff_diff_eq)

lemma far_off:
  fixes y d :: addr
  assumes "24 \<le> d" "d \<le> - 24" "y < 24"
  shows "\<not> y - d < 24"
  using assms unfolding word_le_def word_less_alt uint_sub_if'
  apply (simp split: if_splits)
  apply (insert uint_nonnegative [of y] uint_nonnegative [of d]
      uint_lt2p [of y, simplified] uint_lt2p [of d, simplified])
  apply linarith
  done

lemma far_neg:
  fixes d :: addr
  assumes "24 \<le> d" "d \<le> - 24"
  shows "24 \<le> - d" "- d \<le> - 24"
  using assms uint_sub_if' [of 0 d] unfolding word_le_def
  by (simp_all split: if_splits)

lemma far_sym: "far p q \<Longrightarrow> far q p"
  using far_neg [of "q - p"] by (simp add: far_def)

lemma far_in_hdr: "far p q \<Longrightarrow> in_hdr p x \<Longrightarrow> \<not> in_hdr q x"
  using far_off [of "q - p" "x - p"] by (simp add: far_def in_hdr_def)

lemma far_in_hdr': "far p q \<Longrightarrow> in_hdr q x \<Longrightarrow> \<not> in_hdr p x"
  using far_in_hdr by blast

lemma set_next_outside: "\<not> in_hdr p x \<Longrightarrow> set_next p v m x = m x"
  unfolding set_next_def by (rule store64_outside) (blast dest: field_in_hdr(1))

lemma set_size_outside: "\<not> in_hdr p x \<Longrightarrow> set_size p v m x = m x"
  unfolding set_size_def by (rule store64_outside) (blast dest: field_in_hdr(2))

lemma set_rc_outside: "\<not> in_hdr p x \<Longrightarrow> set_rc p v m x = m x"
  unfolding set_rc_def by (rule store64_outside) (blast dest: field_in_hdr(3))

lemmas set_outside = set_next_outside set_size_outside set_rc_outside

lemma hdr_cong:
  assumes "\<And>x. in_hdr p x \<Longrightarrow> m x = m' x"
  shows "hdr_next m p = hdr_next m' p" "hdr_size m p = hdr_size m' p" "hdr_rc m p = hdr_rc m' p"
  unfolding hdr_next_def hdr_size_def hdr_rc_def
  by (rule load64_cong, rule assms, erule field_in_hdr)+

lemma hdr_set_far:
  assumes "far p q"
  shows "hdr_next (set_next q v m) p = hdr_next m p" "hdr_next (set_size q v m) p = hdr_next m p"
    "hdr_next (set_rc q v m) p = hdr_next m p"
    "hdr_size (set_next q v m) p = hdr_size m p" "hdr_size (set_size q v m) p = hdr_size m p"
    "hdr_size (set_rc q v m) p = hdr_size m p"
    "hdr_rc (set_next q v m) p = hdr_rc m p" "hdr_rc (set_size q v m) p = hdr_rc m p"
    "hdr_rc (set_rc q v m) p = hdr_rc m p"
  by (rule hdr_cong, simp add: set_outside far_in_hdr [OF assms])+

lemma hdr_set_same:
  "hdr_next (set_next p v m) p = v" "hdr_size (set_size p v m) p = v" "hdr_rc (set_rc p v m) p = v"
  "hdr_next (set_size p v m) p = hdr_next m p" "hdr_next (set_rc p v m) p = hdr_next m p"
  "hdr_size (set_next p v m) p = hdr_size m p" "hdr_size (set_rc p v m) p = hdr_size m p"
  "hdr_rc (set_next p v m) p = hdr_rc m p" "hdr_rc (set_size p v m) p = hdr_rc m p"
  by (simp_all add: hdr_next_def hdr_size_def hdr_rc_def set_next_def set_size_def set_rc_def
      load64_store64_same load64_store64_apart)

lemma far_split:
  assumes "unat sz \<le> 18446744073709551568"
  shows "far p (p + HEADER + sz)"
proof -
  have "unat (24 + sz) = 24 + unat sz"
    using assms unat_plus_if' [of 24 sz] by simp
  then have "24 \<le> 24 + sz \<and> 24 + sz \<le> - 24"
    using assms unfolding word_le_nat_alt by simp
  then show ?thesis by (simp add: far_def HEADER_def)
qed

lemma shrink_fields:
  assumes "far p (p + HEADER + sz)"
  shows "hdr_next (shrink p sz m) p = p + HEADER + sz"
    and "hdr_size (shrink p sz m) p = sz"
    and "hdr_rc (shrink p sz m) p = hdr_rc m p"
    and "hdr_next (shrink p sz m) (p + HEADER + sz) = hdr_next m p"
    and "hdr_size (shrink p sz m) (p + HEADER + sz) = hdr_size m p - sz - HEADER"
    and "hdr_rc (shrink p sz m) (p + HEADER + sz) = 0"
  using assms far_sym [OF assms]
  by (simp_all add: shrink_def Let_def hdr_set_same hdr_set_far)

lemma shrink_outside:
  assumes "\<not> in_hdr p x" "\<not> in_hdr (p + HEADER + sz) x"
  shows "shrink p sz m x = m x"
  using assms by (simp add: shrink_def Let_def set_outside)


text \<open>The definitions that a run on a concrete heap unfolds.\<close>

lemmas run_defs =
  rcalloc_def heap_init_def mmap_anon_def scan.simps grow_def shrink_def
  has_one_reference_def rcfree_def rcinc_def
  MAP_FAILED_def PAGE_SIZE_def HEADER_def zero_fill_def pages_def
  hdr_rc_def hdr_size_def hdr_next_def set_rc_def set_size_def set_next_def
  load64_def store64_def Let_def

section \<open>The first-fit scan\<close>

lemma scan_skip:
  "path m a xs p \<Longrightarrow> \<forall>x\<in>set xs. \<not> fits m sz x \<Longrightarrow> scan sz a l m = scan sz p (last (l # xs)) m"
proof (induction xs arbitrary: a l)
  case Nil
  then show ?case by simp
next
  case (Cons x xs)
  from Cons.prems have a: "a = x" "x \<noteq> 0" "\<not> fits m sz x"
    and rest: "path m (hdr_next m x) xs p" "\<forall>y\<in>set xs. \<not> fits m sz y"
    by simp_all
  have "scan sz x l m = scan sz (hdr_next m x) x m"
    using a by (subst scan.simps) (auto simp add: fits_def)
  also have "\<dots> = scan sz p (last (x # xs)) m"
    using rest by (rule Cons.IH)
  finally show ?case using a by simp
qed




lemma scan_found:
  "p \<noteq> 0 \<Longrightarrow> fits m sz p \<Longrightarrow>
   scan sz p l m =
     Some (Found (p + HEADER) (set_rc p 1 (if sz * 2 + HEADER \<le> hdr_size m p then shrink p sz m else m)))"
  by (subst scan.simps) (simp add: fits_def Let_def)

lemma rcalloc_after_init:
  "sz \<noteq> 0 \<Longrightarrow> heap_init st = (True, st0) \<Longrightarrow>
   rcalloc sz st =
     (case scan sz (start st0) (start st0) (mem st0) of
        None \<Rightarrow> None
      | Some (Found ptr m) \<Rightarrow> Some (ptr, st0\<lparr>mem := m\<rparr>)
      | Some (Exhausted l) \<Rightarrow> Some (grow sz l st0))"
  by (simp add: rcalloc_def)

lemma heap_init_started: "start st \<noteq> 0 \<Longrightarrow> heap_init st = (True, st)"
  by (simp add: heap_init_def)

lemma split_cond:
  fixes sz s :: "64 word"
  assumes "unat s < 9223372036854775796" "sz \<le> s"
  shows "sz * 2 + HEADER \<le> s \<longleftrightarrow> 2 * unat sz + 24 \<le> unat s"
proof -
  have le: "unat sz \<le> unat s" using assms(2) by (simp add: word_le_nat_alt)
  have "unat (sz + sz) = unat sz + unat sz"
    using le assms(1) unat_plus_if' [of sz sz] by simp
  moreover have "unat (sz + sz + 24) = unat (sz + sz) + 24"
    using le assms(1) calculation unat_plus_if' [of "sz + sz" 24] by simp
  ultimately have "unat (sz * 2 + 24) = 2 * unat sz + 24"
    by (simp add: mult_2_right)
  then show ?thesis
    by (simp add: word_le_nat_alt HEADER_def)
qed

section \<open>The reference count of a new segment\<close>

text \<open>
  C1. The claim: after every successful \<^verbatim>\<open>rcalloc(n)\<close>, \<open>n > 0\<close>, the returned block has
  reference count 1 and \<^verbatim>\<open>has_one_reference\<close> is true, on the path that reuses a free
  block and on the path that maps a new segment. The code sets \<^verbatim>\<open>p->rc = 1\<close> only on the
  first path (line 54). On a fresh allocator \<^verbatim>\<open>rcalloc(5000)\<close> finds the first page too
  small, maps a second segment at \<open>0x20000\<close> and returns \<open>0x20018\<close>, whose header was
  never written: its reference count is 0 and \<^verbatim>\<open>has_one_reference\<close> is false.
\<close>

theorem rcalloc_new_segment_refcount:
  "(case rcalloc 5000 fresh_heap of
      None \<Rightarrow> False
    | Some (p, st) \<Rightarrow>
        p = 0x20018 \<and> hdr_rc (mem st) (p - HEADER) = 0 \<and> \<not> has_one_reference p st)"
  by (simp add: fresh_heap_def run_defs)

text \<open>
  C2. The claim: the first block of a new segment records the size of the segment minus
  the header and is split when it is large enough. On a fresh allocator \<^verbatim>\<open>rcalloc(4000)\<close>
  takes the whole first page (4072 bytes do not leave room for a split); the following
  \<^verbatim>\<open>rcalloc(10)\<close> maps a page at \<open>0x20000\<close> and links it behind the first block, but the
  size it then reads from the new header is the zero of a fresh page, never the 4072
  bytes of the page: nothing is split, and the header stays all zero (size 0, no next
  block, reference count 0).
\<close>

theorem rcalloc_new_segment_unsplit:
  "(case rcalloc 4000 fresh_heap of
      None \<Rightarrow> False
    | Some (a, st1) \<Rightarrow>
        (case rcalloc 10 st1 of
           None \<Rightarrow> False
         | Some (p, st) \<Rightarrow>
             a = 0x10018 \<and> p = 0x20018 \<and> hdr_next (mem st) (a - HEADER) = p - HEADER
             \<and> hdr_size (mem st) (p - HEADER) = 0 \<and> hdr_next (mem st) (p - HEADER) = 0
             \<and> hdr_rc (mem st) (p - HEADER) = 0))"
  by (simp add: fresh_heap_def run_defs)

section \<open>Releasing\<close>

lemma rcfuncfree_tagged: "ptr AND 1 \<noteq> 0 \<Longrightarrow> rcfuncfree ptr st = Some (Done st)"
  unfolding rcfuncfree_def by (subst rcfuncfree_at.simps) simp

lemma rcfree_fixed_iff: "rcfree ptr st = st \<longleftrightarrow> hdr_rc (mem st) (ptr - HEADER) = 0"
proof
  assume eq: "rcfree ptr st = st"
  show "hdr_rc (mem st) (ptr - HEADER) = 0"
  proof (rule ccontr)
    assume nz: "hdr_rc (mem st) (ptr - HEADER) \<noteq> 0"
    then have "hdr_rc (mem (rcfree ptr st)) (ptr - HEADER) = hdr_rc (mem st) (ptr - HEADER) - 1"
      by (simp add: rcfree_def Let_def hdr_rc_def set_rc_def load64_store64_same)
    with eq show False by simp
  qed
next
  assume "hdr_rc (mem st) (ptr - HEADER) = 0"
  then show "rcfree ptr st = st" by (simp add: rcfree_def)
qed

text \<open>
  C3, as stated: a value with its lowest bit set is left alone by \<^verbatim>\<open>rcfree\<close> too. It is not:
  \<^verbatim>\<open>rcfree\<close> has no test of the tag. After \<^verbatim>\<open>rcalloc(10)\<close> has returned \<open>p\<close> and the
  caller has stored 5 in the second byte of the payload, the odd value \<open>p + 9\<close> given to
  \<^verbatim>\<open>rcfree\<close> is taken for a payload pointer, whose count would be the word at \<open>p + 1\<close>:
  the byte becomes 4.
\<close>

theorem rcfree_tagged_counterexample:
  "(case rcalloc 10 fresh_heap of
      None \<Rightarrow> False
    | Some (p, st) \<Rightarrow>
        p = 0x10018
        \<and> (let st1 = st\<lparr>mem := (mem st)(p + 1 := 5)\<rparr>
           in (p + 9) AND 1 = 1 \<and> mem st1 (p + 1) = 5 \<and> mem (rcfree (p + 9) st1) (p + 1) = 4))"
  by (simp add: fresh_heap_def run_defs)

text \<open>
  C3, amended: \<^verbatim>\<open>rcfuncfree\<close> returns at once on a value with its lowest bit set and
  leaves the whole state as it was. \<^verbatim>\<open>rcfree\<close> does not look at the tag: it takes any
  argument for a payload pointer. It leaves the state as it was exactly when the word 8
  bytes before its argument is zero; otherwise it takes one from that word and changes
  no other byte.
\<close>

theorem release_tagged:
  "(ptr AND 1 \<noteq> 0 \<longrightarrow> rcfuncfree ptr st = Some (Done st))
   \<and> (rcfree ptr st = st \<longleftrightarrow> hdr_rc (mem st) (ptr - HEADER) = 0)
   \<and> (hdr_rc (mem st) (ptr - HEADER) \<noteq> 0 \<longrightarrow>
        hdr_rc (mem (rcfree ptr st)) (ptr - HEADER) = hdr_rc (mem st) (ptr - HEADER) - 1
        \<and> start (rcfree ptr st) = start st \<and> os (rcfree ptr st) = os st
        \<and> (\<forall>x. \<not> x - (ptr - HEADER + 16) < 8 \<longrightarrow> mem (rcfree ptr st) x = mem st x))"
proof -
  have "hdr_rc (mem st) (ptr - HEADER) \<noteq> 0 \<longrightarrow>
        hdr_rc (mem (rcfree ptr st)) (ptr - HEADER) = hdr_rc (mem st) (ptr - HEADER) - 1
        \<and> start (rcfree ptr st) = start st \<and> os (rcfree ptr st) = os st
        \<and> (\<forall>x. \<not> x - (ptr - HEADER + 16) < 8 \<longrightarrow> mem (rcfree ptr st) x = mem st x)"
    by (simp add: rcfree_def Let_def hdr_rc_def set_rc_def load64_store64_same store64_outside)
  then show ?thesis
    using rcfuncfree_tagged [of ptr st] rcfree_fixed_iff [of ptr st] by blast
qed

theorem release_tagged_witness:
  "(0x10021 :: addr) AND 1 \<noteq> 0 \<and> rcfuncfree 0x10021 heap5 = Some (Done heap5)
   \<and> hdr_rc (mem heap5) (0x10021 - HEADER) = 0 \<and> rcfree 0x10021 heap5 = heap5
   \<and> hdr_rc (mem (heap5\<lparr>mem := (mem heap5)(0x10019 := 5)\<rparr>)) (0x10021 - HEADER) = 5
   \<and> hdr_rc (mem (rcfree 0x10021 (heap5\<lparr>mem := (mem heap5)(0x10019 := 5)\<rparr>))) (0x10021 - HEADER) = 4
   \<and> mem (rcfree 0x10021 (heap5\<lparr>mem := (mem heap5)(0x10019 := 5)\<rparr>)) 0x10018
       = mem (heap5\<lparr>mem := (mem heap5)(0x10019 := 5)\<rparr>) 0x10018"
proof -
  have z: "hdr_rc (mem heap5) (0x10021 - HEADER) = 0"
    by (simp add: heap5_def fresh_heap_def run_defs)
  have f: "hdr_rc (mem (heap5\<lparr>mem := (mem heap5)(0x10019 := 5)\<rparr>)) (0x10021 - HEADER) = 5"
    by (simp add: heap5_def fresh_heap_def run_defs)
  show ?thesis
    using z f release_tagged [of "0x10021" heap5]
      release_tagged [of "0x10021" "heap5\<lparr>mem := (mem heap5)(0x10019 := 5)\<rparr>"]
    by (simp add: HEADER_def)
qed

text \<open>
  C6. \<^verbatim>\<open>rcfuncfree\<close> on a pointer without tag whose block has reference count 0 does not
  return: it takes the branch of line 146 and the process stops there.
\<close>

theorem rcfuncfree_double_release:
  "ptr AND 1 = 0 \<Longrightarrow> hdr_rc (mem st) (ptr - HEADER) = 0 \<Longrightarrow> rcfuncfree ptr st = Some Fault"
  unfolding rcfuncfree_def by (subst rcfuncfree_at.simps) simp

theorem rcfuncfree_double_release_witness:
  "(0x10018 :: addr) AND 1 = 0 \<and> hdr_rc (mem fresh_heap) (0x10018 - HEADER) = 0
   \<and> rcfuncfree 0x10018 fresh_heap = Some Fault"
proof -
  have t: "(0x10018 :: addr) AND 1 = 0" by simp
  have z: "hdr_rc (mem fresh_heap) (0x10018 - HEADER) = 0"
    by (simp add: fresh_heap_def hdr_rc_def load64_def)
  show ?thesis using t z rcfuncfree_double_release [OF t z] by simp
qed

text \<open>
  C7. \<^verbatim>\<open>rcfree\<close> takes exactly one from a reference count that is not zero (the count does
  not wrap), and changes nothing but the 8 bytes of the count; on a count of zero it
  leaves the whole state as it was.
\<close>

theorem rcfree_decrement:
  "(hdr_rc (mem st) (ptr - HEADER) \<noteq> 0 \<longrightarrow>
      hdr_rc (mem (rcfree ptr st)) (ptr - HEADER) = hdr_rc (mem st) (ptr - HEADER) - 1
      \<and> unat (hdr_rc (mem (rcfree ptr st)) (ptr - HEADER)) + 1 = unat (hdr_rc (mem st) (ptr - HEADER)))
   \<and> (hdr_rc (mem st) (ptr - HEADER) = 0 \<longrightarrow> rcfree ptr st = st)
   \<and> start (rcfree ptr st) = start st \<and> os (rcfree ptr st) = os st
   \<and> (\<forall>x. \<not> x - (ptr - HEADER + 16) < 8 \<longrightarrow> mem (rcfree ptr st) x = mem st x)"
proof -
  have "unat (v - 1) + 1 = unat v" if "v \<noteq> 0" for v :: "64 word"
    using that by unat_arith
  then show ?thesis
    by (simp add: rcfree_def Let_def hdr_rc_def set_rc_def load64_store64_same store64_outside)
qed

theorem rcfree_decrement_witness:
  "hdr_rc (mem (fresh_heap\<lparr>mem := (\<lambda>_. 0)(0x10010 := 2)\<rparr>)) (0x10018 - HEADER) = 2
   \<and> hdr_rc (mem (rcfree 0x10018 (fresh_heap\<lparr>mem := (\<lambda>_. 0)(0x10010 := 2)\<rparr>))) (0x10018 - HEADER) = 1
   \<and> hdr_rc (mem fresh_heap) (0x10018 - HEADER) = 0 \<and> rcfree 0x10018 fresh_heap = fresh_heap
   \<and> mem (rcfree 0x10018 (fresh_heap\<lparr>mem := (\<lambda>_. 0)(0x10010 := 2)\<rparr>)) 0x10018 = 0"
  using rcfree_decrement [of "fresh_heap\<lparr>mem := (\<lambda>_. 0)(0x10010 := 2)\<rparr>" "0x10018"]
    rcfree_decrement [of fresh_heap "0x10018"]
  by (simp add: fresh_heap_def hdr_rc_def load64_def HEADER_def)

section \<open>Copying\<close>


lemma word_succ_le:
  fixes i n y :: "64 word"
  assumes "i < n"
  shows "i + 1 \<le> y \<longleftrightarrow> i < y"
proof -
  have "unat i < unat n"
    using assms by (simp add: word_less_nat_alt)
  moreover have "unat n < 18446744073709551616"
    using unsigned_less [of n] by simp
  ultimately have "unat i + 1 < 18446744073709551616"
    by linarith
  then have "unat (i + 1) = unat i + 1"
    using unat_plus_if' [of i 1] by simp
  then show ?thesis
    by (simp add: word_le_nat_alt word_less_nat_alt) linarith
qed

lemma copy_loop_none: "\<not> i < n \<Longrightarrow> copy_loop i n dst src m = m"
  by (subst copy_loop.simps) simp

lemma copy_loop_read:
  "i \<le> n \<Longrightarrow>
    \<forall>x. copy_loop i n dst src m x =
      (if i \<le> x - dst \<and> x - dst < n then
         (if i \<le> src + (x - dst) - dst \<and> src + (x - dst) - dst < x - dst
          then copy_loop i n dst src m (src + (x - dst)) else m (src + (x - dst)))
       else m x)"
proof (induction i n dst src m rule: copy_loop.induct)
  case (1 i n dst src m)
  show ?case
  proof (cases "i < n")
    case True
    let ?m = "m(dst + i := m (src + i))"
    have step: "copy_loop i n dst src m = copy_loop (i + 1) n dst src ?m"
      using True by (subst copy_loop.simps) simp
    have le: "i + 1 \<le> n" using True by (simp add: word_succ_le [OF True])
    have ih: "copy_loop (i + 1) n dst src ?m x =
      (if i + 1 \<le> x - dst \<and> x - dst < n then
         (if i + 1 \<le> src + (x - dst) - dst \<and> src + (x - dst) - dst < x - dst
          then copy_loop (i + 1) n dst src ?m (src + (x - dst)) else ?m (src + (x - dst)))
       else ?m x)" for x
      using "1.IH" [OF True le] by blast
    have succ: "i + 1 \<le> y \<longleftrightarrow> i < y" for y by (rule word_succ_le [OF True])
    have at_i: "copy_loop (i + 1) n dst src ?m (dst + i) = m (src + i)"
      using ih [of "dst + i"] by (simp add: succ)
    show ?thesis
    proof
      fix x
      let ?y = "x - dst"
      let ?z = "src + ?y - dst"
      show "copy_loop i n dst src m x =
        (if i \<le> ?y \<and> ?y < n then
           (if i \<le> ?z \<and> ?z < ?y then copy_loop i n dst src m (src + ?y) else m (src + ?y))
         else m x)"
      proof (cases "?y = i")
        case yi: True
        then have x: "x = dst + i" by (simp add: diff_eq_eq add.commute)
        have nz: "(i \<le> src + i - dst \<and> src + i - dst < i) = False" by auto
        show ?thesis using True at_i by (simp add: step x nz)
      next
        case yi: False
        then have x: "x \<noteq> dst + i" by auto
        show ?thesis
        proof (cases "i < ?y \<and> ?y < n")
          case inner: True
          show ?thesis
          proof (cases "?z = i")
            case zi: True
            then have s: "src + ?y = dst + i" by (simp add: diff_eq_eq add.commute)
            show ?thesis using inner zi ih [of x] at_i
              by (simp add: step succ s less_imp_le)
          next
            case zi: False
            then have s: "src + ?y \<noteq> dst + i" by auto
            have "i \<le> ?z \<longleftrightarrow> i < ?z" using zi by auto
            then show ?thesis using inner ih [of x] s
              by (simp add: step succ less_imp_le)
          qed
        next
          case outer: False
          then have c1: "\<not> (i \<le> ?y \<and> ?y < n)" using yi by auto
          have c2: "\<not> (i + 1 \<le> ?y \<and> ?y < n)" using outer by (simp add: succ)
          have "copy_loop i n dst src m x = ?m x"
            unfolding step using ih [of x] c2 by (simp only: if_not_P if_False)
          also have "\<dots> = m x" using x by simp
          finally show ?thesis using c1 by (simp only: if_not_P if_False)
        qed
      qed
    qed
  next
    case False
    then have "i = n" using "1.prems" by simp
    then show ?thesis by (subst copy_loop.simps) auto
  qed
qed

lemma copy_loop_join:
  "i \<le> k \<Longrightarrow> k \<le> n \<Longrightarrow>
    copy_loop k n dst src (copy_loop i k dst src m) = copy_loop i n dst src m"
proof (induction i k dst src m rule: copy_loop.induct)
  case (1 i k dst src m)
  show ?case
  proof (cases "i < k")
    case True
    let ?m = "m(dst + i := m (src + i))"
    have le: "i + 1 \<le> k" using True by (simp add: word_succ_le [OF True])
    have "i < n" using True "1.prems"(2) by simp
    then have a: "copy_loop i n dst src m = copy_loop (i + 1) n dst src ?m"
      by (subst copy_loop.simps) simp
    have b: "copy_loop i k dst src m = copy_loop (i + 1) k dst src ?m"
      using True by (subst copy_loop.simps) simp
    show ?thesis unfolding a b using "1.IH" [OF True le "1.prems"(2)] by (simp add: fun_upd_def)
  next
    case False
    then have "i = k" using "1.prems" by simp
    then show ?thesis by (simp add: copy_loop_none)
  qed
qed

lemma both_copy_loops:
  fixes a ptr len sz :: "64 word" and m :: memory
  defines "m2 \<equiv> copy_loop len sz a ptr (copy_loop 0 len a ptr m)"
  shows "i < len \<or> i < sz \<Longrightarrow>
           m2 (a + i) = (if ptr + i - a < i then m2 (ptr + i) else m (ptr + i))"
    and "\<not> x - a < len \<Longrightarrow> \<not> x - a < sz \<Longrightarrow> m2 x = m x"
proof -
  define n where "n = (if len \<le> sz then sz else len)"
  have m2: "m2 = copy_loop 0 n a ptr m"
  proof (cases "len \<le> sz")
    case True
    then show ?thesis unfolding m2_def n_def using copy_loop_join [of 0 len sz a ptr m] by simp
  next
    case False
    then show ?thesis unfolding m2_def n_def by (simp add: copy_loop_none)
  qed
  have n: "y < n \<longleftrightarrow> y < len \<or> y < sz" for y
    unfolding n_def by auto
  have r: "m2 x = (if x - a < n then
         (if ptr + (x - a) - a < x - a then m2 (ptr + (x - a)) else m (ptr + (x - a)))
       else m x)" for x
    using copy_loop_read [of 0 n a ptr m] unfolding m2 by simp
  show "m2 (a + i) = (if ptr + i - a < i then m2 (ptr + i) else m (ptr + i))" if "i < len \<or> i < sz"
    using that r [of "a + i"] by (simp add: n)
  show "m2 x = m x" if "\<not> x - a < len" "\<not> x - a < sz"
    using that r [of x] by (simp add: n)
qed

text \<open>
  C9, as stated, fails when the new block lies behind the source and within reach of the
  tail read. On the heap with one live block of 2 bytes at \<open>0x10018\<close>, first byte 1,
  \<^verbatim>\<open>rccopy(0x10018, 2, 40)\<close> gets the new block at \<open>0x10032\<close>, 26 bytes behind the source.
  The byte at offset 26 of the source is 0 before the call and after the inner
  \<^verbatim>\<open>rcalloc\<close>, but the byte at offset 26 of the new block is 1: the loop reads it after
  it has written byte 0 of the copy to that address.
\<close>

theorem rccopy_result_counterexample:
  "mem dup_heap 0x10018 = 1 \<and> mem dup_heap (0x10018 + 26) = 0
   \<and> (case rcalloc 40 dup_heap of
         None \<Rightarrow> False
       | Some (a, st1) \<Rightarrow> a = 0x10032 \<and> mem st1 (0x10018 + 26) = 0)
   \<and> (case rccopy 0x10018 2 40 dup_heap of
         None \<Rightarrow> False
       | Some (b, st2) \<Rightarrow> b = 0x10032 \<and> mem st2 (b + 26) = 1)"
  by (simp add: dup_heap_def fresh_heap_def run_defs rccopy_def copy_loop.simps)

text \<open>
  C9, amended. \<^verbatim>\<open>rccopy\<close> returns \<^verbatim>\<open>NULL\<close> and leaves the state alone when the source is
  \<^verbatim>\<open>NULL\<close>; it returns the \<^verbatim>\<open>NULL\<close> of \<^verbatim>\<open>rcalloc\<close>, with the state \<^verbatim>\<open>rcalloc\<close> left, when
  the allocation fails; otherwise it returns the new block, and both loops have copied
  into it from the source: every byte \<open>i\<close> below \<open>len\<close> and every byte \<open>i\<close> from \<open>len\<close> up
  to \<open>size\<close> is the byte that stood at the address \<open>source + i\<close> when the loop read it.
  That is the byte \<^verbatim>\<open>rcalloc\<close> left there, unless the address is one of the bytes
  \<open>0, ..., i - 1\<close> of the new block, which the loop has already written: then it is that
  byte of the copy. No byte of memory outside the new block changes.
\<close>

theorem rccopy_result:
  "rccopy 0 len sz st = Some (0, st)
   \<and> (ptr \<noteq> 0 \<longrightarrow> rcalloc sz st = Some (0, st1) \<longrightarrow> rccopy ptr len sz st = Some (0, st1))
   \<and> (ptr \<noteq> 0 \<longrightarrow> rcalloc sz st = Some (a, st1) \<longrightarrow> a \<noteq> 0 \<longrightarrow>
        (\<exists>st2. rccopy ptr len sz st = Some (a, st2) \<and> start st2 = start st1 \<and> os st2 = os st1
           \<and> (\<forall>i. i < len \<or> i < sz \<longrightarrow>
                 mem st2 (a + i) = (if ptr + i - a < i then mem st2 (ptr + i) else mem st1 (ptr + i)))
           \<and> (\<forall>x. \<not> x - a < len \<and> \<not> x - a < sz \<longrightarrow> mem st2 x = mem st1 x)))"
  by (auto simp add: rccopy_def Let_def both_copy_loops)

theorem rccopy_result_witness:
  "rccopy 0 2 4 src_heap = Some (0, src_heap)
   \<and> rcalloc 4 (src_heap\<lparr>os := []\<rparr>) = Some (0, src_heap\<lparr>os := [], start := MAP_FAILED\<rparr>)
   \<and> rccopy 0x30000 2 4 (src_heap\<lparr>os := []\<rparr>) = Some (0, src_heap\<lparr>os := [], start := MAP_FAILED\<rparr>)
   \<and> (\<exists>st2. rccopy 0x30000 2 4 src_heap = Some (0x10018, st2)
          \<and> mem st2 0x10018 = 1 \<and> mem st2 0x10019 = 2 \<and> mem st2 0x1001A = 3 \<and> mem st2 0x1001B = 4)
   \<and> (\<exists>st2. rccopy 0x10018 2 40 dup_heap = Some (0x10032, st2)
          \<and> mem st2 0x10032 = 1 \<and> mem st2 0x1004C = 1)"
proof -
  have fail: "rcalloc 4 (src_heap\<lparr>os := []\<rparr>) = Some (0, src_heap\<lparr>os := [], start := MAP_FAILED\<rparr>)"
    by (simp add: src_heap_def fresh_heap_def rcalloc_def heap_init_def mmap_anon_def PAGE_SIZE_def)
  have "case rcalloc 4 src_heap of
          None \<Rightarrow> False
        | Some (a, st1) \<Rightarrow> a = 0x10018 \<and> mem st1 0x30000 = 1 \<and> mem st1 0x30001 = 2
            \<and> mem st1 0x30002 = 3 \<and> mem st1 0x30003 = 4"
    by (simp add: src_heap_def fresh_heap_def run_defs)
  then obtain st1 where ok: "rcalloc 4 src_heap = Some (0x10018, st1)"
    and src: "mem st1 0x30000 = 1" "mem st1 0x30001 = 2" "mem st1 0x30002 = 3" "mem st1 0x30003 = 4"
    by (auto split: option.splits)
  from rccopy_result [of 2 4 src_heap "0x30000" st1 "0x10018"] ok
  obtain st2 where r: "rccopy 0x30000 2 4 src_heap = Some (0x10018, st2)"
    and c: "\<forall>i. i < 2 \<or> i < 4 \<longrightarrow> mem st2 (0x10018 + i) =
              (if 0x30000 + i - 0x10018 < i then mem st2 (0x30000 + i) else mem st1 (0x30000 + i))"
    by auto
  have far_copy: "mem st2 0x10018 = 1" "mem st2 0x10019 = 2" "mem st2 0x1001A = 3" "mem st2 0x1001B = 4"
    using c [rule_format, of 0] c [rule_format, of 1] c [rule_format, of 2] c [rule_format, of 3] src
    by simp_all
  have "case rcalloc 40 dup_heap of
          None \<Rightarrow> False
        | Some (a, st1) \<Rightarrow> a = 0x10032 \<and> mem st1 0x10018 = 1"
    by (simp add: dup_heap_def fresh_heap_def run_defs)
  then obtain st1' where ok': "rcalloc 40 dup_heap = Some (0x10032, st1')"
    and src': "mem st1' 0x10018 = 1"
    by (auto split: option.splits)
  from rccopy_result [of 2 40 dup_heap "0x10018" st1' "0x10032"] ok'
  obtain st2' where r': "rccopy 0x10018 2 40 dup_heap = Some (0x10032, st2')"
    and c': "\<forall>i. i < 2 \<or> i < 40 \<longrightarrow> mem st2' (0x10032 + i) =
              (if 0x10018 + i - 0x10032 < i then mem st2' (0x10018 + i) else mem st1' (0x10018 + i))"
    by auto
  have b0: "mem st2' 0x10032 = 1"
    using c' [rule_format, of 0] src' by simp
  have "mem st2' 0x1004C = 1"
    using c' [rule_format, of 26] b0 by simp
  then show ?thesis
    using r far_copy r' b0 fail rccopy_result [of 2 4 src_heap "0x30000" st1 "0x10018"]
      rccopy_result [of 2 4 "src_heap\<lparr>os := []\<rparr>" "0x30000" "src_heap\<lparr>os := [], start := MAP_FAILED\<rparr>" "0x10018"]
    by simp
qed

section \<open>Releasing a closure\<close>

lemma release_seq_snoc:
  "release_seq xs st = Some (Done s) \<Longrightarrow>
   release_seq (xs @ [a]) st =
     Option.bind (rcfuncfree a s) (\<lambda>r. case r of Fault \<Rightarrow> Some Fault | Done s1 \<Rightarrow> Some (Done s1))"
proof (induction xs arbitrary: st)
  case Nil
  then show ?case
    by (cases "rcfuncfree a s") (auto split: outcome.splits)
next
  case (Cons x xs)
  then show ?case
    by (cases "rcfuncfree x st") (auto split: outcome.splits)
qed

lemma loop_unfold:
  "rcfuncfree_at (Loop closure i n) st =
     (if i < n then
        if closure_word (mem st) closure i = 0 then Some (Done st)
        else Option.bind (rcfuncfree (closure_word (mem st) closure i) st)
               (\<lambda>r. case r of Fault \<Rightarrow> Some Fault
                     | Done st1 \<Rightarrow> rcfuncfree_at (Loop closure (i + 1) n) st1)
      else Some (Done st))"
  by (subst rcfuncfree_at.simps) (simp add: rcfuncfree_def)

lemma call_unfold:
  "ptr AND 1 = 0 \<Longrightarrow> hdr_rc (mem st) (ptr - HEADER) = 1 \<Longrightarrow> closure_word (mem st) ptr 0 \<noteq> 0 \<Longrightarrow>
   rcfuncfree ptr st =
     Option.bind (rcfuncfree_at (Loop ptr 1 (load32 (mem st) (closure_word (mem st) ptr 0) + 1)) st)
       (\<lambda>r. case r of Fault \<Rightarrow> Some Fault
             | Done st1 \<Rightarrow>
                 Some (Done (st1\<lparr>mem := set_rc (ptr - HEADER) (hdr_rc (mem st1) (ptr - HEADER) - 1) (mem st1)\<rparr>)))"
  unfolding rcfuncfree_def by (subst rcfuncfree_at.simps) (simp add: Let_def)

lemma own_words_eq:
  assumes "own_words ptr n m = own_words ptr n m'"
  shows "hdr_rc m (ptr - HEADER) = hdr_rc m' (ptr - HEADER)"
    and "1 \<le> i \<Longrightarrow> i \<le> n + 1 \<Longrightarrow> closure_word m ptr (of_nat i) = closure_word m' ptr (of_nat i)"
proof -
  show "hdr_rc m (ptr - HEADER) = hdr_rc m' (ptr - HEADER)"
    using assms by (simp add: own_words_def)
  assume "1 \<le> i" "i \<le> n + 1"
  then have "i \<in> set [1..<n + 2]" by auto
  moreover have "map (\<lambda>i. closure_word m ptr (of_nat i)) [1..<n + 2]
      = map (\<lambda>i. closure_word m' ptr (of_nat i)) [1..<n + 2]"
    using assms by (simp add: own_words_def)
  ultimately show "closure_word m ptr (of_nat i) = closure_word m' ptr (of_nat i)"
    by (meson map_eq_conv)
qed


lemma unat_of_nat32: "j < 4294967296 \<Longrightarrow> unat (of_nat j :: 32 word) = j"
  unfolding unat_of_nat by simp

lemma loop_release:
  fixes argc :: "32 word"
  assumes bound: "unat argc < 4294967295" "length args \<le> unat argc"
    and nz: "\<forall>a\<in>set args. a \<noteq> 0"
    and slots: "\<And>j s i. j \<le> length args \<Longrightarrow> release_seq (take j args) st = Some (Done s) \<Longrightarrow>
        i < length args \<Longrightarrow> closure_word (mem s) ptr (of_nat (i + 1)) = args ! i"
    and stop: "\<And>j s. j \<le> length args \<Longrightarrow> release_seq (take j args) st = Some (Done s) \<Longrightarrow>
        length args < unat argc \<Longrightarrow> closure_word (mem s) ptr (of_nat (length args + 1)) = 0"
  shows "k \<le> length args \<Longrightarrow> release_seq (take k args) st = Some (Done s) \<Longrightarrow>
    rcfuncfree_at (Loop ptr (of_nat (k + 1)) (argc + 1)) s = release_seq (drop k args) s"
proof (induction "length args - k" arbitrary: k s)
  case 0
  then have k: "k = length args" by simp
  have n: "unat (argc + 1) = unat argc + 1"
    using bound(1) unat_plus_if' [of argc 1] by simp
  have i: "unat (of_nat (k + 1) :: 32 word) = k + 1"
    using bound k by (intro unat_of_nat32) simp
  have lt: "(of_nat (k + 1) :: 32 word) < argc + 1 \<longleftrightarrow> length args < unat argc"
    using n i k by (simp add: word_less_nat_alt)
  show ?case
    using stop [OF "0.prems"] lt k by (simp add: loop_unfold)
next
  case (Suc d)
  then have k: "k < length args" by simp
  have n: "unat (argc + 1) = unat argc + 1"
    using bound(1) unat_plus_if' [of argc 1] by simp
  have i: "unat (of_nat (k + 1) :: 32 word) = k + 1"
    using bound k by (intro unat_of_nat32) simp
  have lt: "(of_nat (k + 1) :: 32 word) < argc + 1"
    using n i k bound by (simp add: word_less_nat_alt)
  have w: "closure_word (mem s) ptr (of_nat (k + 1)) = args ! k"
    using slots [OF Suc.prems k] .
  have wnz: "args ! k \<noteq> 0" using nz k by simp
  have next_i: "(of_nat (k + 1) :: 32 word) + 1 = of_nat (Suc k + 1)" by simp
  have ih: "rcfuncfree_at (Loop ptr (of_nat (Suc k + 1)) (argc + 1)) s1 = release_seq (drop (Suc k) args) s1"
    if "rcfuncfree (args ! k) s = Some (Done s1)" for s1
  proof (rule Suc.hyps(1))
    show "d = length args - Suc k" using Suc.hyps(2) by simp
    show "Suc k \<le> length args" using k by simp
    show "release_seq (take (Suc k) args) st = Some (Done s1)"
      using release_seq_snoc [OF Suc.prems(2), of "args ! k"] that k
      by (simp add: take_Suc_conv_app_nth)
  qed
  have "rcfuncfree_at (Loop ptr (of_nat (k + 1)) (argc + 1)) s =
      Option.bind (rcfuncfree (args ! k) s)
        (\<lambda>r. case r of Fault \<Rightarrow> Some Fault
              | Done s1 \<Rightarrow> rcfuncfree_at (Loop ptr (of_nat (Suc k + 1)) (argc + 1)) s1)"
    using lt w wnz by (subst loop_unfold) (simp only: next_i if_True if_False)
  also have "\<dots> = Option.bind (rcfuncfree (args ! k) s)
        (\<lambda>r. case r of Fault \<Rightarrow> Some Fault | Done s1 \<Rightarrow> release_seq (drop (Suc k) args) s1)"
    using ih by (cases "rcfuncfree (args ! k) s") (auto split: outcome.splits)
  also have "\<dots> = release_seq (drop k args) s"
    using k by (simp flip: Cons_nth_drop_Suc)
  finally show ?case .
qed


text \<open>
  C5, as stated, for every number of arguments: the loop walks the captured words from
  index 1 up to the number of arguments. The bound of the loop is \<open>argc + 1\<close> in
  \<^verbatim>\<open>unsigned int\<close> (line 137). For a function whose number of arguments reads
  \<open>0xFFFFFFFF\<close> the bound wraps to 0 and the loop does not run: the closure of
  \<open>closure_heap\<close>, given such a function, is released to count 0 while its captured
  arguments keep their counts 2 and 1.
\<close>

theorem rcfuncfree_last_reference_counterexample:
  "(let st = closure_heap\<lparr>mem := (mem closure_heap)
               (0x40000 := 0xFF, 0x40001 := 0xFF, 0x40002 := 0xFF, 0x40003 := 0xFF)\<rparr>
    in (0x10018 :: addr) AND 1 = 0 \<and> hdr_rc (mem st) (0x10018 - HEADER) = 1
       \<and> load32 (mem st) (closure_word (mem st) 0x10018 0) = 0xFFFFFFFF
       \<and> closure_word (mem st) 0x10018 1 = 0x30018 \<and> closure_word (mem st) 0x10018 2 = 0x20018
       \<and> hdr_rc (mem st) 0x30000 = 2 \<and> hdr_rc (mem st) 0x20000 = 1
       \<and> (case rcfuncfree 0x10018 st of
            Some (Done s) \<Rightarrow>
              hdr_rc (mem s) 0x10000 = 0 \<and> hdr_rc (mem s) 0x30000 = 2 \<and> hdr_rc (mem s) 0x20000 = 1
          | _ \<Rightarrow> False))"
  by (simp add: closure_heap_def rcfuncfree_def rcfuncfree_at.simps closure_word_def load32_def
      load64_def store64_def hdr_rc_def set_rc_def HEADER_def Let_def word_less_nat_alt)

text \<open>
  C5, amended. \<^verbatim>\<open>rcfuncfree\<close> on a closure without tag whose reference count is 1 and
  whose word 0 is not \<^verbatim>\<open>NULL\<close>, where the number of arguments \<open>argc\<close> of its function is
  below \<open>2^32 - 1\<close>. Let \<open>args\<close> be the captured arguments: the words 1, 2, ... of the
  closure up to the first zero word, or up to \<open>argc\<close> if no word is zero before. Then
  the call is the same as releasing exactly the values \<open>args\<close>, in this order, each with
  \<^verbatim>\<open>rcfuncfree\<close>, and only then storing the reference count 0 in the closure's own
  header; a fault in one of these calls is the fault of the whole call. No word behind
  the first zero word has a part in it. (The loop re-reads the closure after every
  call, so the statement is for closures whose own words and count are not written by
  the release of their arguments: a closure does not capture itself.)
\<close>

theorem rcfuncfree_last_reference:
  assumes "ptr AND 1 = 0" "hdr_rc (mem st) (ptr - HEADER) = 1"
    and "argc = load32 (mem st) (closure_word (mem st) ptr 0)" "unat argc < 4294967295"
    and "length args \<le> unat argc" "\<forall>a\<in>set args. a \<noteq> 0"
    and "\<forall>i<length args. closure_word (mem st) ptr (of_nat (i + 1)) = args ! i"
    and "length args < unat argc \<longrightarrow> closure_word (mem st) ptr (of_nat (length args + 1)) = 0"
    and "\<And>j s. j \<le> length args \<Longrightarrow> release_seq (take j args) st = Some (Done s) \<Longrightarrow>
           own_words ptr (length args) (mem s) = own_words ptr (length args) (mem st)"
    and "closure_word (mem st) ptr 0 \<noteq> 0"
  shows "rcfuncfree ptr st =
      Option.bind (release_seq args st)
        (\<lambda>r. case r of Fault \<Rightarrow> Some Fault
              | Done s \<Rightarrow> Some (Done (s\<lparr>mem := set_rc (ptr - HEADER) 0 (mem s)\<rparr>)))
    \<and> (\<forall>s. rcfuncfree ptr st = Some (Done s) \<longrightarrow> hdr_rc (mem s) (ptr - HEADER) = 0)"
proof -
  have slots: "closure_word (mem s) ptr (of_nat (i + 1)) = args ! i"
    if "j \<le> length args" "release_seq (take j args) st = Some (Done s)" "i < length args" for j s i
    using own_words_eq(2) [OF assms(9) [OF that(1,2)], of "i + 1"] assms(7) that(3) by simp
  have stop: "closure_word (mem s) ptr (of_nat (length args + 1)) = 0"
    if "j \<le> length args" "release_seq (take j args) st = Some (Done s)" "length args < unat argc" for j s
    using own_words_eq(2) [OF assms(9) [OF that(1,2)], of "length args + 1"] assms(8) that(3) by simp
  have loop: "rcfuncfree_at (Loop ptr 1 (argc + 1)) st = release_seq args st"
    using loop_release [of argc args st ptr 0 st, OF assms(4,5,6) slots stop] by simp
  have rc: "hdr_rc (mem s) (ptr - HEADER) = 1" if "release_seq args st = Some (Done s)" for s
    using own_words_eq(1) [OF assms(9) [of "length args" s]] that assms(2) by simp
  have eq: "rcfuncfree ptr st =
      Option.bind (release_seq args st)
        (\<lambda>r. case r of Fault \<Rightarrow> Some Fault
              | Done s \<Rightarrow> Some (Done (s\<lparr>mem := set_rc (ptr - HEADER) 0 (mem s)\<rparr>)))"
    unfolding call_unfold [OF assms(1,2,10)] assms(3) [symmetric] loop
    using rc by (cases "release_seq args st") (auto split: outcome.splits)
  moreover have "hdr_rc (mem s) (ptr - HEADER) = 0" if "rcfuncfree ptr st = Some (Done s)" for s
    using that unfolding eq
    by (cases "release_seq args st") (auto split: outcome.splits simp add: hdr_set_same)
  ultimately show ?thesis by blast
qed


text \<open>
  The example of the claim: 3 arguments, captured \<open>[a, b, 0]\<close>. Both \<open>a\<close> (count 2 to 1)
  and \<open>b\<close> (count 1 to 0) are released, and the closure's own count ends at 0.
\<close>

lemmas closure_defs =
  closure_heap_def rcfuncfree_def rcfuncfree_at.simps closure_word_def load32_def load64_def
  store64_def hdr_rc_def set_rc_def HEADER_def Let_def

theorem rcfuncfree_last_reference_witness:
  "(0x10018 :: addr) AND 1 = 0 \<and> hdr_rc (mem closure_heap) (0x10018 - HEADER) = 1
   \<and> closure_word (mem closure_heap) 0x10018 0 = 0x40000
   \<and> load32 (mem closure_heap) (closure_word (mem closure_heap) 0x10018 0) = 3
   \<and> closure_word (mem closure_heap) 0x10018 1 = 0x30018
   \<and> closure_word (mem closure_heap) 0x10018 2 = 0x20018
   \<and> closure_word (mem closure_heap) 0x10018 3 = 0
   \<and> (\<exists>s. rcfuncfree 0x10018 closure_heap = Some (Done s) \<and> hdr_rc (mem s) 0x10000 = 0
          \<and> hdr_rc (mem s) 0x30000 = 1 \<and> hdr_rc (mem s) 0x20000 = 0)"
proof -
  let ?args = "[0x30018, 0x20018] :: 64 word list"
  have t: "(0x10018 :: addr) AND 1 = 0" by simp
  have fn0: "closure_word (mem closure_heap) 0x10018 0 = 0x40000"
    by (simp add: closure_defs)
  then have fn: "closure_word (mem closure_heap) 0x10018 0 \<noteq> 0"
    by simp
  have rc: "hdr_rc (mem closure_heap) (0x10018 - HEADER) = 1"
    by (simp add: closure_defs)
  have ar: "(3 :: 32 word) = load32 (mem closure_heap) (closure_word (mem closure_heap) 0x10018 0)"
    by (simp add: closure_defs)
  have w: "closure_word (mem closure_heap) 0x10018 1 = 0x30018"
    "closure_word (mem closure_heap) 0x10018 2 = 0x20018"
    "closure_word (mem closure_heap) 0x10018 3 = 0"
    by (simp_all add: closure_defs)
  have slots: "\<forall>i<length ?args. closure_word (mem closure_heap) 0x10018 (of_nat (i + 1)) = ?args ! i"
    using w by (simp add: less_Suc_eq)
  have stop: "length ?args < unat (3 :: 32 word) \<longrightarrow>
      closure_word (mem closure_heap) 0x10018 (of_nat (length ?args + 1)) = 0"
    using w by simp
  have own: "own_words 0x10018 (length ?args) (mem s) = own_words 0x10018 (length ?args) (mem closure_heap)"
    if "j \<le> length ?args" "release_seq (take j ?args) closure_heap = Some (Done s)" for j s
  proof -
    from that(1) consider "j = 0" | "j = 1" | "j = 2" by fastforce
    then show ?thesis
    proof cases
      case 1
      then show ?thesis using that(2) by simp
    next
      case 2
      then show ?thesis using that(2) by (auto simp add: closure_defs own_words_def upt_rec)
    next
      case 3
      then show ?thesis using that(2) by (auto simp add: closure_defs own_words_def upt_rec)
    qed
  qed
  have run: "case release_seq ?args closure_heap of
      Some (Done s) \<Rightarrow> hdr_rc (mem s) 0x30000 = 1 \<and> hdr_rc (mem s) 0x20000 = 0 | _ \<Rightarrow> False"
    by (simp add: closure_defs)
  then obtain s where s: "release_seq ?args closure_heap = Some (Done s)"
    "hdr_rc (mem s) 0x30000 = 1" "hdr_rc (mem s) 0x20000 = 0"
    by (auto split: option.splits outcome.splits)
  have far1: "far 0x30000 (0x10018 - HEADER)" and far2: "far 0x20000 (0x10018 - HEADER)"
    by (simp_all add: far_def HEADER_def)
  have b: "unat (3 :: 32 word) < 4294967295" "length ?args \<le> unat (3 :: 32 word)" "\<forall>a\<in>set ?args. a \<noteq> 0"
    by simp_all
  have main: "rcfuncfree 0x10018 closure_heap =
      Option.bind (release_seq ?args closure_heap)
        (\<lambda>r. case r of Fault \<Rightarrow> Some Fault
              | Done s \<Rightarrow> Some (Done (s\<lparr>mem := set_rc (0x10018 - HEADER) 0 (mem s)\<rparr>)))
    \<and> (\<forall>s. rcfuncfree 0x10018 closure_heap = Some (Done s) \<longrightarrow> hdr_rc (mem s) (0x10018 - HEADER) = 0)"
    by (rule rcfuncfree_last_reference [OF t rc ar b slots stop _ fn]) (rule own)
  have r: "rcfuncfree 0x10018 closure_heap =
      Some (Done (s\<lparr>mem := set_rc (0x10018 - HEADER) 0 (mem s)\<rparr>))"
    using main unfolding s(1) by simp
  have z: "\<forall>s. rcfuncfree 0x10018 closure_heap = Some (Done s) \<longrightarrow> hdr_rc (mem s) (0x10018 - HEADER) = 0"
    using main by blast
  have "hdr_rc (mem (s\<lparr>mem := set_rc (0x10018 - HEADER) 0 (mem s)\<rparr>)) 0x10000 = 0"
    using z r by (simp add: HEADER_def)
  moreover have "hdr_rc (mem (s\<lparr>mem := set_rc (0x10018 - HEADER) 0 (mem s)\<rparr>)) 0x30000 = 1"
    "hdr_rc (mem (s\<lparr>mem := set_rc (0x10018 - HEADER) 0 (mem s)\<rparr>)) 0x20000 = 0"
    using s(2,3) by (simp_all add: hdr_set_far [OF far1] hdr_set_far [OF far2])
  ultimately show ?thesis
    using t rc fn0 ar [symmetric] w r by simp
qed

section \<open>Reusing a released block\<close>

lemma range_nat:
  fixes a y :: addr
  assumes "unat a + n \<le> 18446744073709551616" "unat (y - a) < n"
  shows "unat a \<le> unat y \<and> unat y < unat a + n"
  using assms unat_sub_if' [of y a] by (simp split: if_splits)

lemma in_hdr_nat:
  "unat p + 24 \<le> 18446744073709551616 \<Longrightarrow> in_hdr p y \<Longrightarrow> unat p \<le> unat y \<and> unat y < unat p + 24"
  using range_nat [of p 24 y] by (simp add: in_hdr_def word_less_nat_alt)

lemma unat_split_addr:
  fixes p sz :: addr
  assumes "unat p + 24 + unat sz < 18446744073709551616"
  shows "unat (p + HEADER + sz) = unat p + 24 + unat sz"
proof -
  have "unat (p + 24) = unat p + 24"
    using assms unat_plus_if' [of p 24] by simp
  then show ?thesis
    using assms unat_plus_if' [of "p + 24" sz] by (simp add: HEADER_def)
qed

lemma take_block_outside:
  assumes bnd: "block_end m p \<le> 9223372036854775808"
    and fit: "sz \<le> hdr_size m p"
    and out: "unat y < unat p \<or> block_end m p \<le> unat y"
  shows "take_block p sz m y = m y"
proof -
  let ?s = "hdr_size m p"
  let ?q = "p + HEADER + sz"
  have le: "unat sz \<le> unat ?s" using fit by (simp add: word_le_nat_alt)
  have s: "unat ?s < 9223372036854775796" using bnd by (simp add: block_end_def)
  have np: "\<not> in_hdr p y"
    using in_hdr_nat [of p y] out bnd by (auto simp add: block_end_def)
  show ?thesis
  proof (cases "sz * 2 + HEADER \<le> ?s")
    case True
    then have room: "2 * unat sz + 24 \<le> unat ?s"
      using split_cond [OF s fit] by simp
    have q: "unat ?q = unat p + 24 + unat sz"
      using bnd le by (intro unat_split_addr) (simp add: block_end_def)
    have "\<not> in_hdr ?q y"
      using in_hdr_nat [of ?q y] out bnd room q by (auto simp add: block_end_def)
    then show ?thesis
      using np True by (simp add: take_block_def set_outside shrink_outside)
  next
    case False
    then show ?thesis using np by (simp add: take_block_def set_outside)
  qed
qed


lemma scan_takes:
  "p \<noteq> 0 \<Longrightarrow> fits m sz p \<Longrightarrow> scan sz p l m = Some (Found (p + HEADER) (take_block p sz m))"
  by (simp add: scan_found take_block_def)

lemma path_append:
  "path m a (xs @ ys) b \<longleftrightarrow> (\<exists>c. path m a xs c \<and> path m c ys b)"
  by (induction xs arbitrary: a) auto

lemma path_cong:
  "\<forall>x\<in>set xs. hdr_next m' x = hdr_next m x \<Longrightarrow> path m' a xs b = path m a xs b"
  by (induction xs arbitrary: a) auto

lemma rcalloc_takes:
  assumes "sz \<noteq> 0" "heap_init st = (True, st0)"
    and "path (mem st0) (start st0) pre p" "\<forall>x\<in>set pre. \<not> fits (mem st0) sz x"
    and "p \<noteq> 0" "fits (mem st0) sz p"
  shows "rcalloc sz st = Some (p + HEADER, st0\<lparr>mem := take_block p sz (mem st0)\<rparr>)"
proof -
  have "scan sz (start st0) (start st0) (mem st0) = scan sz p (last (start st0 # pre)) (mem st0)"
    using assms(3,4) by (rule scan_skip)
  then show ?thesis
    using assms(1,2,5,6) by (simp add: rcalloc_after_init scan_takes)
qed

lemma take_block_fields:
  assumes bnd: "block_end m p \<le> 9223372036854775808" and fit: "sz \<le> hdr_size m p"
  shows "hdr_rc (take_block p sz m) p = 1"
    and "sz \<le> hdr_size (take_block p sz m) p"
    and "hdr_size (take_block p sz m) p \<le> hdr_size m p"
proof -
  have le: "unat sz \<le> unat (hdr_size m p)" using fit by (simp add: word_le_nat_alt)
  have "far p (p + HEADER + sz)"
    using bnd le by (intro far_split) (simp add: block_end_def)
  then have "hdr_size (shrink p sz m) p = sz" by (rule shrink_fields)
  then show "sz \<le> hdr_size (take_block p sz m) p" "hdr_size (take_block p sz m) p \<le> hdr_size m p"
    using fit by (simp_all add: take_block_def hdr_set_same)
  show "hdr_rc (take_block p sz m) p = 1"
    by (simp add: take_block_def hdr_set_same)
qed

lemma hdr_outside:
  assumes "\<And>y. unat x \<le> unat y \<Longrightarrow> unat y < unat x + 24 \<Longrightarrow> m' y = m y"
    and "unat x + 24 \<le> 18446744073709551616"
  shows "hdr_next m' x = hdr_next m x" "hdr_size m' x = hdr_size m x" "hdr_rc m' x = hdr_rc m x"
  by (rule hdr_cong; use assms in_hdr_nat [of x] in blast)+


text \<open>
  C8, as stated, for any heap: a block A of 10 bytes is allocated and released, and the
  next \<^verbatim>\<open>rcalloc\<close> of at most 10 bytes returns A again. First fit does not promise that:
  on the fresh allocator, \<^verbatim>\<open>rcalloc(5)\<close> returns \<open>0x10018\<close>, which is released; then
  \<^verbatim>\<open>rcalloc(10)\<close> returns A at \<open>0x10035\<close>, with 10 bytes, which is released; then
  \<^verbatim>\<open>rcalloc(5)\<close> returns the earlier free block \<open>0x10018\<close>, not A.
\<close>

theorem rcalloc_reuse_counterexample:
  "(case rcalloc 5 fresh_heap of
      None \<Rightarrow> False
    | Some (x, s1) \<Rightarrow>
        (case rcalloc 10 (rcfree x s1) of
           None \<Rightarrow> False
         | Some (a, s2) \<Rightarrow>
             hdr_size (mem s2) (a - HEADER) = 10 \<and> hdr_rc (mem s2) (a - HEADER) = 1
             \<and> hdr_rc (mem (rcfree a s2)) (a - HEADER) = 0
             \<and> (case rcalloc 5 (rcfree a s2) of
                  None \<Rightarrow> False
                | Some (b, s3) \<Rightarrow> a = 0x10035 \<and> b = 0x10018 \<and> b \<noteq> a)))"
  by (simp add: fresh_heap_def run_defs)

text \<open>
  C8, amended. The scan of \<^verbatim>\<open>rcalloc(10)\<close> passes the blocks \<open>pre\<close> and takes the free
  block \<open>p\<close> (so the block A is not the unwritten first block of a new segment). After
  one \<^verbatim>\<open>rcfree\<close> its reference count is 0, and \<^verbatim>\<open>rcalloc(n)\<close> with \<open>0 < n \<le> 10\<close>
  returns the same payload pointer, provided that no block before \<open>p\<close> in the chain is
  free with at least \<open>n\<close> bytes. That is so for \<open>n = 10\<close>, and whenever A is the first
  block of the chain, as after the first allocation of a fresh allocator. The heap is
  well formed: the chain ends, and its blocks do not overlap.
\<close>

theorem rcalloc_reuse:
  assumes init: "heap_init st = (True, st0)"
    and chain: "path (mem st0) (start st0) (pre @ p # post) 0"
    and wf: "wf_heap (mem st0) (pre @ p # post)"
    and first: "\<forall>x\<in>set pre. \<not> fits (mem st0) 10 x" "fits (mem st0) 10 p"
    and n: "n \<noteq> 0" "n \<le> 10" "\<forall>x\<in>set pre. \<not> fits (mem st0) n x"
  shows "\<exists>st1 st3. rcalloc 10 st = Some (p + HEADER, st1)
      \<and> hdr_rc (mem st1) p = 1
      \<and> hdr_rc (mem (rcfree (p + HEADER) st1)) p = 0
      \<and> rcalloc n (rcfree (p + HEADER) st1) = Some (p + HEADER, st3)"
proof -
  let ?m0 = "mem st0"
  let ?m1 = "take_block p 10 ?m0"
  let ?st1 = "st0\<lparr>mem := ?m1\<rparr>"
  let ?m2 = "set_rc p 0 ?m1"
  let ?st2 = "st0\<lparr>mem := ?m2\<rparr>"
  from chain obtain c where pre: "path ?m0 (start st0) pre c" and rest: "path ?m0 c (p # post) 0"
    unfolding path_append by blast
  then have c: "c = p" and p: "p \<noteq> 0" by simp_all
  have started: "start st0 \<noteq> 0"
    using chain by (cases pre) auto
  have bnd: "block_end ?m0 p \<le> 9223372036854775808"
    using wf by (simp add: wf_heap_def)
  have fit: "10 \<le> hdr_size ?m0 p" using first(2) by (simp add: fits_def)
  have alloc: "rcalloc 10 st = Some (p + HEADER, ?st1)"
    using init pre first p unfolding c by (intro rcalloc_takes) simp_all
  have rc1: "hdr_rc ?m1 p = 1" and size1: "10 \<le> hdr_size ?m1 p"
    using take_block_fields [OF bnd fit] by simp_all
  have free: "rcfree (p + HEADER) ?st1 = ?st2"
    using rc1 by (simp add: rcfree_def Let_def)
  have same: "?m2 y = ?m0 y" if "unat y < unat p \<or> block_end ?m0 p \<le> unat y" for y
  proof -
    have "\<not> in_hdr p y"
      using in_hdr_nat [of p y] that bnd by (auto simp add: block_end_def)
    then show ?thesis
      using take_block_outside [OF bnd fit that] by (simp add: set_outside)
  qed
  have before: "hdr_next ?m2 x = hdr_next ?m0 x \<and> hdr_size ?m2 x = hdr_size ?m0 x
      \<and> hdr_rc ?m2 x = hdr_rc ?m0 x" if "x \<in> set pre" for x
  proof -
    have "x \<noteq> p" using that first by auto
    then have apart: "block_end ?m0 x \<le> unat p \<or> block_end ?m0 p \<le> unat x"
      using wf that by (simp add: wf_heap_def)
    have xb: "block_end ?m0 x \<le> 9223372036854775808"
      using wf that by (simp add: wf_heap_def)
    have "?m2 y = ?m0 y" if "unat x \<le> unat y" "unat y < unat x + 24" for y
      using that apart by (intro same) (auto simp add: block_end_def)
    then show ?thesis
      using xb by (intro conjI hdr_outside) (simp_all add: block_end_def)
  qed
  have pre2: "path ?m2 (start st0) pre p"
    using pre before path_cong [of pre ?m2 ?m0 "start st0" p] unfolding c by simp
  have nofit2: "\<forall>x\<in>set pre. \<not> fits ?m2 n x"
    using n(3) before by (simp add: fits_def)
  have fit2: "fits ?m2 n p"
    using size1 n(2) by (simp add: fits_def hdr_set_same)
  have again: "\<exists>st3. rcalloc n ?st2 = Some (p + HEADER, st3)"
    using rcalloc_takes [of n ?st2 ?st2 pre p] n(1) heap_init_started [of ?st2] started pre2 nofit2 p fit2
    by simp
  show ?thesis
    using alloc rc1 free again by (simp add: hdr_set_same)
qed


theorem rcalloc_reuse_witness:
  "(\<exists>st1 st3. rcalloc 10 fresh_heap = Some (0x10018, st1) \<and> hdr_rc (mem st1) 0x10000 = 1
       \<and> hdr_rc (mem (rcfree 0x10018 st1)) 0x10000 = 0
       \<and> rcalloc 7 (rcfree 0x10018 st1) = Some (0x10018, st3))
   \<and> path (mem heap5) (start heap5) ([0x10000] @ 0x1001D # []) 0
   \<and> \<not> fits (mem heap5) 10 0x10000 \<and> fits (mem heap5) 10 0x1001D
   \<and> (\<exists>st1 st3. rcalloc 10 heap5 = Some (0x10035, st1) \<and> hdr_rc (mem st1) 0x1001D = 1
       \<and> hdr_rc (mem (rcfree 0x10035 st1)) 0x1001D = 0
       \<and> rcalloc 10 (rcfree 0x10035 st1) = Some (0x10035, st3))"
proof -
  let ?st0 = "snd (heap_init fresh_heap)"
  have i: "heap_init fresh_heap = (True, ?st0)"
    by (simp add: fresh_heap_def run_defs)
  have c: "path (mem ?st0) (start ?st0) ([] @ 0x10000 # []) 0"
    by (simp add: fresh_heap_def run_defs)
  have w: "wf_heap (mem ?st0) ([] @ 0x10000 # [])"
    by (simp add: wf_heap_def block_end_def fresh_heap_def run_defs)
  have f: "fits (mem ?st0) 10 0x10000"
    by (simp add: fits_def fresh_heap_def run_defs)
  have i5: "heap_init heap5 = (True, heap5)"
    by (simp add: heap5_def fresh_heap_def run_defs)
  have c5: "path (mem heap5) (start heap5) ([0x10000] @ 0x1001D # []) 0"
    by (simp add: heap5_def fresh_heap_def run_defs)
  have w5: "wf_heap (mem heap5) ([0x10000] @ 0x1001D # [])"
    by (simp add: wf_heap_def block_end_def heap5_def fresh_heap_def run_defs)
  have n5: "\<not> fits (mem heap5) 10 0x10000" and f5: "fits (mem heap5) 10 0x1001D"
    by (simp_all add: fits_def heap5_def fresh_heap_def run_defs)
  show ?thesis
    using rcalloc_reuse [OF i c w _ f, of 7] rcalloc_reuse [OF i5 c5 w5 _ f5, of 10] c5 n5 f5
    by (simp add: HEADER_def)
qed

section \<open>What rcalloc leaves alone\<close>

















section \<open>Splitting a block\<close>

lemma path_nonzero: "path m a xs b \<Longrightarrow> 0 \<notin> set xs"
  by (induction xs arbitrary: a) auto







end
